theory Spec2Isabelle
  imports Main
begin

section \<open>Document model shared by the tab group\<close>

text \<open>
  The tab group of \<^verbatim>\<open>LionTabs\<close> works on DOM elements that are shared between the host's
  child list and the entries of its private store, so elements live in an explicit store
  indexed by an identifier. An element carries its \<^verbatim>\<open>slot\<close>, its attributes and its
  event listeners in registration order. A listener is a JavaScript closure: it is
  compared by identity, so each closure value carries the number it was allocated under.
\<close>

type_synonym elem_id = nat

datatype listener =
    ClickHandler nat nat
  | KeyHandler nat
  | PreventAll nat

record element =
  slot :: string
  attrs :: "string \<rightharpoonup> string"
  listeners :: "(string \<times> listener) list"

type_synonym dom = "elem_id \<Rightarrow> element"

definition setAttribute :: "elem_id \<Rightarrow> string \<Rightarrow> string \<Rightarrow> dom \<Rightarrow> dom" where
  "setAttribute el name v d = d(el := (d el)\<lparr>attrs := (attrs (d el))(name \<mapsto> v)\<rparr>)"

definition removeAttribute :: "elem_id \<Rightarrow> string \<Rightarrow> dom \<Rightarrow> dom" where
  "removeAttribute el name d = d(el := (d el)\<lparr>attrs := (attrs (d el))(name := None)\<rparr>)"

definition hasAttribute :: "dom \<Rightarrow> elem_id \<Rightarrow> string \<Rightarrow> bool" where
  "hasAttribute d el name = (attrs (d el) name \<noteq> None)"

definition getAttribute :: "dom \<Rightarrow> elem_id \<Rightarrow> string \<Rightarrow> string option" where
  "getAttribute d el name = attrs (d el) name"

text \<open>
  \<^verbatim>\<open>addEventListener\<close> ignores a listener that is already registered for the same event
  type; \<^verbatim>\<open>removeEventListener\<close> removes the registration of exactly the closure passed.
\<close>

definition addEventListener :: "elem_id \<Rightarrow> string \<Rightarrow> listener \<Rightarrow> dom \<Rightarrow> dom" where
  "addEventListener el type l d =
     (if (type, l) \<in> set (listeners (d el)) then d
      else d(el := (d el)\<lparr>listeners := listeners (d el) @ [(type, l)]\<rparr>))"

definition removeEventListener :: "elem_id \<Rightarrow> string \<Rightarrow> listener \<Rightarrow> dom \<Rightarrow> dom" where
  "removeEventListener el type l d =
     d(el := (d el)\<lparr>listeners := filter (\<lambda>r. r \<noteq> (type, l)) (listeners (d el))\<rparr>)"

definition listenersFor :: "dom \<Rightarrow> elem_id \<Rightarrow> string \<Rightarrow> listener list" where
  "listenersFor d el type = map snd (filter (\<lambda>r. fst r = type) (listeners (d el)))"

section \<open>The tab group: \<^verbatim>\<open>LionTabs\<close>\<close>

text \<open>
  One entry of \<^verbatim>\<open>__store\<close>. The panel is \<^verbatim>\<open>panels[index]\<close>, which JavaScript leaves
  undefined when there are fewer panels than buttons.
\<close>

record entry =
  uid :: string
  button :: elem_id
  panel :: "elem_id option"
  clickHandler :: listener
  keydownHandler :: listener

datatype error = TypeError

type_synonym 'a result = "(error \<times> 'a) + 'a"

text \<open>
  The state of one \<^verbatim>\<open>LionTabs\<close> host and of the part of the document it touches.
  \<^item> \<open>nodes\<close>: the element store;
  \<^item> \<open>descendants\<close>: all descendants of the host in document order, the elements
    \<^verbatim>\<open>this.querySelectorAll\<close> ranges over; \<open>children\<close>: its direct children in
    document order, the elements of \<^verbatim>\<open>this.children\<close>;
  \<^item> \<open>store\<close>: \<^verbatim>\<open>this.__store\<close>, \<open>None\<close> while undefined;
  \<^item> \<open>selectedIndex\<close>: \<^verbatim>\<open>this.__selectedIndex\<close>, an integer;
  \<^item> \<open>firstUpdate\<close>: \<^verbatim>\<open>this.__firstUpdate\<close>;
  \<^item> \<open>activeElement\<close>: the element holding focus;
  \<^item> \<open>dispatched\<close>: the events dispatched on the host, oldest first;
  \<^item> \<open>warnings\<close>: the \<^verbatim>\<open>console.warn\<close> calls, each with its two interpolated counts;
  \<^item> \<open>random\<close> and \<open>draws\<close>: the strings \<^verbatim>\<open>uuid()\<close> returns, as an input sequence
    and the number of draws made so far;
  \<^item> \<open>closures\<close>: the number of closures allocated so far.
\<close>

record tabs =
  nodes :: dom
  descendants :: "elem_id list"
  children :: "elem_id list"
  store :: "entry list option"
  selectedIndex :: int
  firstUpdate :: bool
  activeElement :: "elem_id option"
  dispatched :: "string list"
  warnings :: "(nat \<times> nat) list"
  random :: "nat \<Rightarrow> string"
  draws :: nat
  closures :: nat

definition setupPanel :: "elem_id \<Rightarrow> string \<Rightarrow> dom \<Rightarrow> dom" where
  "setupPanel el u d =
     (let d1 = setAttribute el ''id'' (''panel-'' @ u) d;
          d2 = setAttribute el ''role'' ''tabpanel'' d1
      in setAttribute el ''aria-labelledby'' (''button-'' @ u) d2)"

definition selectPanel :: "elem_id \<Rightarrow> dom \<Rightarrow> dom" where
  "selectPanel el d = setAttribute el ''selected'' ''true'' d"

definition deselectPanel :: "elem_id \<Rightarrow> dom \<Rightarrow> dom" where
  "deselectPanel el d = removeAttribute el ''selected'' d"

text \<open>
  \<^verbatim>\<open>setupButton\<close> registers the two handlers of the entry and a third, freshly allocated
  arrow function on \<^verbatim>\<open>keydown\<close>; \<open>k\<close> is the identity that closure is allocated under.
\<close>

definition setupButton :: "elem_id \<Rightarrow> string \<Rightarrow> listener \<Rightarrow> listener \<Rightarrow> nat \<Rightarrow> dom \<Rightarrow> dom" where
  "setupButton el u ch kh k d =
     (let d1 = setAttribute el ''id'' (''button-'' @ u) d;
          d2 = setAttribute el ''role'' ''tab'' d1;
          d3 = setAttribute el ''aria-controls'' (''panel-'' @ u) d2;
          d4 = addEventListener el ''click'' ch d3;
          d5 = addEventListener el ''keyup'' kh d4
      in addEventListener el ''keydown'' (PreventAll k) d5)"

text \<open>
  \<^verbatim>\<open>cleanButton\<close> passes \<^verbatim>\<open>removeEventListener\<close> another freshly allocated arrow
  function for \<^verbatim>\<open>keydown\<close>, again under the identity \<open>k\<close>.
\<close>

definition cleanButton :: "elem_id \<Rightarrow> listener \<Rightarrow> listener \<Rightarrow> nat \<Rightarrow> dom \<Rightarrow> dom" where
  "cleanButton el ch kh k d =
     (let d1 = removeAttribute el ''id'' d;
          d2 = removeAttribute el ''role'' d1;
          d3 = removeAttribute el ''aria-controls'' d2;
          d4 = removeEventListener el ''click'' ch d3;
          d5 = removeEventListener el ''keyup'' kh d4
      in removeEventListener el ''keydown'' (PreventAll k) d5)"

definition selectButton :: "elem_id \<Rightarrow> bool \<Rightarrow> tabs \<Rightarrow> tabs" where
  "selectButton el first s =
     (let s1 = (if \<not> first then s\<lparr>activeElement := Some el\<rparr> else s);
          d1 = setAttribute el ''selected'' ''true'' (nodes s1);
          d2 = setAttribute el ''aria-selected'' ''true'' d1;
          d3 = setAttribute el ''tabindex'' ''0'' d2
      in s1\<lparr>nodes := d3\<rparr>)"

definition deselectButton :: "elem_id \<Rightarrow> dom \<Rightarrow> dom" where
  "deselectButton el d =
     (let d1 = removeAttribute el ''selected'' d;
          d2 = setAttribute el ''aria-selected'' ''false'' d1
      in setAttribute el ''tabindex'' ''-1'' d2)"

text \<open>Indexing a JavaScript array: undefined outside \<open>0 \<le> i < length\<close>.\<close>

definition at_index :: "'a list \<Rightarrow> int \<Rightarrow> 'a option" where
  "at_index xs i = (if 0 \<le> i \<and> i < int (length xs) then Some (xs ! nat i) else None)"

text \<open>\<^verbatim>\<open>this.querySelectorAll('[slot="name"]')\<close>: the matching descendants, nested ones too.\<close>

definition slotted :: "string \<Rightarrow> tabs \<Rightarrow> elem_id list" where
  "slotted name s = filter (\<lambda>c. slot (nodes s c) = name) (descendants s)"

text \<open>
  \<^verbatim>\<open>__updateSelected\<close>: returns at once unless the store exists and has an entry at
  \<open>selectedIndex\<close>; otherwise deselects the first child that carries \<^verbatim>\<open>selected\<close> in each
  slot and selects the entry's button and panel.
\<close>

definition updateSelected :: "tabs \<Rightarrow> tabs" where
  "updateSelected s =
     (case store s of
        None \<Rightarrow> s
      | Some es \<Rightarrow>
          (case at_index es (selectedIndex s) of
             None \<Rightarrow> s
           | Some cur \<Rightarrow>
               (let previousButton =
                      find (\<lambda>c. slot (nodes s c) = ''tab'' \<and> hasAttribute (nodes s) c ''selected'')
                        (children s);
                    previousPanel =
                      find (\<lambda>c. slot (nodes s c) = ''panel'' \<and> hasAttribute (nodes s) c ''selected'')
                        (children s);
                    s1 = (case previousButton of
                            None \<Rightarrow> s
                          | Some b \<Rightarrow> s\<lparr>nodes := deselectButton b (nodes s)\<rparr>);
                    s2 = (case previousPanel of
                            None \<Rightarrow> s1
                          | Some p \<Rightarrow> s1\<lparr>nodes := deselectPanel p (nodes s1)\<rparr>);
                    s3 = selectButton (button cur) (firstUpdate s2) s2
                in (case panel cur of
                      None \<Rightarrow> s3
                    | Some p \<Rightarrow> s3\<lparr>nodes := selectPanel p (nodes s3)\<rparr>))))"

text \<open>
  The setter of \<^verbatim>\<open>selectedIndex\<close>. The closing \<^verbatim>\<open>requestUpdate\<close> only schedules the
  asynchronous re-render of the host and changes nothing the model holds.
\<close>

definition set_selectedIndex :: "int \<Rightarrow> tabs \<Rightarrow> tabs" where
  "set_selectedIndex v s =
     (let s1 = s\<lparr>firstUpdate := False\<rparr>;
          s2 = s1\<lparr>selectedIndex := v\<rparr>;
          s3 = updateSelected s2
      in s3\<lparr>dispatched := dispatched s3 @ [''selected-changed'']\<rparr>)"

text \<open>
  The callback of the \<^verbatim>\<open>forEach\<close> in \<^verbatim>\<open>__setupStore\<close> for one button, and the loop
  over the buttons. The entry literal draws the uid and allocates the two handler
  closures; \<^verbatim>\<open>setupPanel\<close> then dereferences the panel and throws a \<^verbatim>\<open>TypeError\<close> when
  it is undefined, which leaves the loop with the entries pushed so far. \<^verbatim>\<open>__setupStore\<close> has assigned the
  empty array to \<^verbatim>\<open>__store\<close> before the loop, so the push always finds an array.
\<close>

definition push :: "entry \<Rightarrow> tabs \<Rightarrow> tabs" where
  "push e s = s\<lparr>store := map_option (\<lambda>es. es @ [e]) (store s)\<rparr>"

definition setupEntry :: "elem_id \<Rightarrow> nat \<Rightarrow> elem_id list \<Rightarrow> tabs \<Rightarrow> tabs result" where
  "setupEntry b index panels s =
     (let u = random s (draws s);
          k = closures s;
          s1 = s\<lparr>draws := Suc (draws s), closures := k + 2\<rparr>;
          e = \<lparr>uid = u, button = b,
               panel = (if index < length panels then Some (panels ! index) else None),
               clickHandler = ClickHandler k index, keydownHandler = KeyHandler (k + 1)\<rparr>
      in (case panel e of
            None \<Rightarrow> Inl (TypeError, s1)
          | Some p \<Rightarrow>
              (let d1 = setupPanel p u (nodes s1);
                   d2 = setupButton b u (clickHandler e) (keydownHandler e) (closures s1) d1;
                   d3 = deselectPanel p d2;
                   d4 = deselectButton b d3;
                   s2 = s1\<lparr>nodes := d4, closures := closures s1 + 1\<rparr>
               in Inr (push e s2))))"

fun setupEntries :: "elem_id list \<Rightarrow> elem_id list \<Rightarrow> nat \<Rightarrow> tabs \<Rightarrow> tabs result" where
  "setupEntries [] panels index s = Inr s"
| "setupEntries (b # bs) panels index s =
     (case setupEntry b index panels s of
        Inl err \<Rightarrow> Inl err
      | Inr s1 \<Rightarrow> setupEntries bs panels (Suc index) s1)"

definition setupStore :: "tabs \<Rightarrow> tabs result" where
  "setupStore s =
     (let s0 = s\<lparr>store := Some []\<rparr>;
          buttons = slotted ''tab'' s0;
          panels = slotted ''panel'' s0;
          s1 = (if length buttons \<noteq> length panels
                then s0\<lparr>warnings := warnings s0 @ [(length buttons, length panels)]\<rparr> else s0)
      in setupEntries buttons panels 0 s1)"

fun cleanEntries :: "entry list \<Rightarrow> tabs \<Rightarrow> tabs" where
  "cleanEntries [] s = s"
| "cleanEntries (e # es) s =
     cleanEntries es
       (s\<lparr>nodes := cleanButton (button e) (clickHandler e) (keydownHandler e) (closures s) (nodes s),
          closures := Suc (closures s)\<rparr>)"

definition cleanStore :: "tabs \<Rightarrow> tabs" where
  "cleanStore s = (case store s of None \<Rightarrow> s | Some es \<Rightarrow> cleanEntries es s)"

text \<open>The \<^verbatim>\<open>slotchange\<close> handler installed by \<^verbatim>\<open>__setupSlots\<close>.\<close>

definition handleSlotChange :: "tabs \<Rightarrow> tabs result" where
  "handleSlotChange s =
     (case setupStore (cleanStore s) of
        Inl err \<Rightarrow> Inl err
      | Inr s1 \<Rightarrow> Inr (updateSelected s1))"

subsection \<open>Events on a tab trigger\<close>

record event =
  key :: string
  defaultPrevented :: bool

definition preventDefault :: "event \<Rightarrow> event" where
  "preventDefault e = e\<lparr>defaultPrevented := True\<rparr>"

text \<open>\<^verbatim>\<open>_pairCount\<close> reads the length of \<^verbatim>\<open>__store\<close> and throws while it is undefined.\<close>

definition pairCount :: "tabs \<Rightarrow> error + nat" where
  "pairCount s = (case store s of None \<Rightarrow> Inl TypeError | Some es \<Rightarrow> Inr (length es))"

text \<open>
  \<^verbatim>\<open>__handleButtonKeydown\<close>, which \<^verbatim>\<open>setupButton\<close> registers on \<^verbatim>\<open>keyup\<close>. The first
  case of the \<^verbatim>\<open>switch\<close> has no \<^verbatim>\<open>preventDefault\<close>; the other three have one.
\<close>

definition handleButtonKeydown :: "event \<Rightarrow> tabs \<Rightarrow> (event \<times> tabs) result" where
  "handleButtonKeydown e s =
     (if key e = ''ArrowDown'' \<or> key e = ''ArrowRight'' then
        (case pairCount s of
           Inl err \<Rightarrow> Inl (err, e, s)
         | Inr n \<Rightarrow>
             if selectedIndex s + 1 \<ge> int n then Inr (e, set_selectedIndex 0 s)
             else Inr (e, set_selectedIndex (selectedIndex s + 1) s))
      else if key e = ''ArrowUp'' \<or> key e = ''ArrowLeft'' then
        (let e1 = preventDefault e
         in if selectedIndex s \<le> 0 then
              (case pairCount s of
                 Inl err \<Rightarrow> Inl (err, e1, s)
               | Inr n \<Rightarrow> Inr (e1, set_selectedIndex (int n - 1) s))
            else Inr (e1, set_selectedIndex (selectedIndex s - 1) s))
      else if key e = ''Home'' then
        Inr (preventDefault e, set_selectedIndex 0 s)
      else if key e = ''End'' then
        (let e1 = preventDefault e
         in case pairCount s of
              Inl err \<Rightarrow> Inl (err, e1, s)
            | Inr n \<Rightarrow> Inr (e1, set_selectedIndex (int n - 1) s))
      else Inr (e, s))"




subsection \<open>Life cycle\<close>

text \<open>
  The constructor assigns \<^verbatim>\<open>selectedIndex = 0\<close> through the setter; \<^verbatim>\<open>firstUpdated\<close>
  sets \<^verbatim>\<open>__firstUpdate\<close> and installs the \<^verbatim>\<open>slotchange\<close> handler. A change of the
  slotted children is followed synchronously by that handler, so the \<^verbatim>\<open>slotchange\<close> event
  takes the new lists of descendants and of direct children as its input; \<open>rebuild\<close> is
  the event on a host all of whose descendants are direct children.
\<close>

definition constructed :: "dom \<Rightarrow> (nat \<Rightarrow> string) \<Rightarrow> tabs" where
  "constructed d r =
     set_selectedIndex 0
       \<lparr>nodes = d, descendants = [], children = [], store = None, selectedIndex = 0, firstUpdate = False,
        activeElement = None, dispatched = [], warnings = [], random = r, draws = 0,
        closures = 0\<rparr>"

definition firstUpdated :: "tabs \<Rightarrow> tabs" where
  "firstUpdated s = s\<lparr>firstUpdate := True\<rparr>"

definition slotchange :: "elem_id list \<Rightarrow> elem_id list \<Rightarrow> tabs \<Rightarrow> tabs result" where
  "slotchange ds cs s = handleSlotChange (s\<lparr>descendants := ds, children := cs\<rparr>)"

definition rebuild :: "elem_id list \<Rightarrow> tabs \<Rightarrow> tabs result" where
  "rebuild cs s = slotchange cs cs s"

section \<open>The rich select: \<^verbatim>\<open>LionSelectRich\<close> and \<^verbatim>\<open>LionSelectInvoker\<close>\<close>

text \<open>
  The content of an option is a tree of text and element nodes. \<^verbatim>\<open>cloneNode(true)\<close>
  copies a node with its subtree, \<^verbatim>\<open>querySelectorAll('*')\<close> lists the descendant
  elements in document order, and \<^verbatim>\<open>textContent\<close> joins the descendant text.
\<close>

datatype node = TextNode string | ElementNode string "node list"

fun cloneNode :: "bool \<Rightarrow> node \<Rightarrow> node" where
  "cloneNode deep (TextNode t) = TextNode t"
| "cloneNode deep (ElementNode tag cs) =
     ElementNode tag (if deep then map (cloneNode deep) cs else [])"

fun elementsIn :: "node \<Rightarrow> node list" where
  "elementsIn (TextNode t) = []"
| "elementsIn (ElementNode tag cs) = ElementNode tag cs # concat (map elementsIn cs)"

fun textIn :: "node \<Rightarrow> string" where
  "textIn (TextNode t) = t"
| "textIn (ElementNode tag cs) = concat (map textIn cs)"

record formElement =
  opt_disabled :: bool
  childNodes :: "node list"

definition querySelectorAll_any :: "formElement \<Rightarrow> node list" where
  "querySelectorAll_any el = concat (map elementsIn (childNodes el))"

definition textContent :: "formElement \<Rightarrow> string" where
  "textContent el = concat (map textIn (childNodes el))"

text \<open>
  The value of an index property: a number, or one of the two values that
  \<^verbatim>\<open>!= null\<close> rejects. In arithmetic \<^verbatim>\<open>null\<close> counts as 0 and \<^verbatim>\<open>undefined\<close> gives NaN
  (\<open>None\<close> here), against which every comparison is false.
\<close>

datatype idx = Undefined | Null | Num int

fun toNumber :: "idx \<Rightarrow> int option" where
  "toNumber Undefined = None"
| "toNumber Null = Some 0"
| "toNumber (Num i) = Some i"

fun at_idx :: "'a list \<Rightarrow> idx \<Rightarrow> 'a option" where
  "at_idx xs (Num i) = at_index xs i"
| "at_idx xs Undefined = None"
| "at_idx xs Null = None"

record invoker =
  selectedElement :: "formElement option"
  inv_disabled :: bool
  inv_readOnly :: bool

datatype focus = ListboxNode | InvokerNode

text \<open>
  The host. \<open>checkedIndex\<close>, \<open>activeIndex\<close>, \<open>formElements\<close> and \<open>opened\<close> are
  properties the class inherits from \<^verbatim>\<open>ListboxMixin\<close> and \<^verbatim>\<open>OverlayMixin\<close>; they are
  held as plain properties, a read returning the value last written. \<open>invokerNode\<close> and
  \<open>listboxNode\<close> are \<open>None\<close> respectively \<open>False\<close> when the getters
  \<^verbatim>\<open>_invokerNode\<close> and \<^verbatim>\<open>_listboxNode\<close> find no element; \<open>focused\<close> is the node that
  last received \<^verbatim>\<open>focus()\<close>.
\<close>

record selectRich =
  disabled :: bool
  readOnly :: bool
  opened :: bool
  interactionMode :: string
  checkedIndex :: idx
  activeIndex :: idx
  formElements :: "formElement list"
  invokerNode :: "invoker option"
  listboxNode :: bool
  focused :: "focus option"

text \<open>
  The two scans \<^verbatim>\<open>__getNextEnabledOption\<close> and \<^verbatim>\<open>__getPreviousEnabledOption\<close> that
  \<^verbatim>\<open>__onKeyUp\<close> calls.

  Modelled from the spec: the methods the class inherits are not part of the sources;
  \<^verbatim>\<open>LionSelectRich.js\<close> keeps their text in a comment (a \<^verbatim>\<open>for\<close> loop from
  \<^verbatim>\<open>currentIndex + offset\<close> to the end of \<^verbatim>\<open>formElements\<close>, respectively down to 0,
  returning the first index whose element exists and is not disabled, and
  \<^verbatim>\<open>currentIndex\<close> when there is none), which is the spec's "move committed index by
  \<plusminus>1 (wrap-free; clamps at bounds, skipping disabled entries)".
\<close>

definition enabledAt :: "formElement list \<Rightarrow> int \<Rightarrow> bool" where
  "enabledAt els i = (case at_index els i of None \<Rightarrow> False | Some el \<Rightarrow> \<not> opt_disabled el)"

function scanUp :: "formElement list \<Rightarrow> int \<Rightarrow> int option" where
  "scanUp els i =
     (if i < int (length els) then (if enabledAt els i then Some i else scanUp els (i + 1))
      else None)"
  by pat_completeness auto
termination
  by (relation "measure (\<lambda>(els, i). nat (int (length els) - i))") auto

function scanDown :: "formElement list \<Rightarrow> int \<Rightarrow> int option" where
  "scanDown els i =
     (if i \<ge> 0 then (if enabledAt els i then Some i else scanDown els (i - 1))
      else None)"
  by pat_completeness auto
termination
  by (relation "measure (\<lambda>(els, i). nat (i + 1))") auto

definition getNextEnabledOption :: "formElement list \<Rightarrow> idx \<Rightarrow> int \<Rightarrow> idx" where
  "getNextEnabledOption els currentIndex offset =
     (case toNumber currentIndex of
        None \<Rightarrow> currentIndex
      | Some c \<Rightarrow> (case scanUp els (c + offset) of None \<Rightarrow> currentIndex | Some i \<Rightarrow> Num i))"

definition getPreviousEnabledOption :: "formElement list \<Rightarrow> idx \<Rightarrow> int \<Rightarrow> idx" where
  "getPreviousEnabledOption els currentIndex offset =
     (case toNumber currentIndex of
        None \<Rightarrow> currentIndex
      | Some c \<Rightarrow> (case scanDown els (c + offset) of None \<Rightarrow> currentIndex | Some i \<Rightarrow> Num i))"

text \<open>\<^verbatim>\<open>__onKeyUp\<close>: two guards, then the two arrow keys.\<close>

definition onKeyUp :: "event \<Rightarrow> selectRich \<Rightarrow> event \<times> selectRich" where
  "onKeyUp ev s =
     (if disabled s then (ev, s)
      else if opened s then (ev, s)
      else if key ev = ''ArrowUp'' then
        (let ev1 = preventDefault ev
         in if interactionMode s = ''mac'' then (ev1, s\<lparr>opened := True\<rparr>)
            else (ev1, s\<lparr>checkedIndex :=
                          getPreviousEnabledOption (formElements s) (checkedIndex s) (-1)\<rparr>))
      else if key ev = ''ArrowDown'' then
        (let ev1 = preventDefault ev
         in if interactionMode s = ''mac'' then (ev1, s\<lparr>opened := True\<rparr>)
            else (ev1, s\<lparr>checkedIndex :=
                          getNextEnabledOption (formElements s) (checkedIndex s) 1\<rparr>))
      else (ev, s))"

definition toggle :: "selectRich \<Rightarrow> selectRich" where
  "toggle s = s\<lparr>opened := \<not> opened s\<rparr>"

text \<open>
  The click handler of the invoker. \<^verbatim>\<open>_overlayCtrl.toggle()\<close> belongs to the overlay
  collaborator and is a parameter here.
\<close>

definition invokerOnClick :: "(selectRich \<Rightarrow> selectRich) \<Rightarrow> selectRich \<Rightarrow> selectRich" where
  "invokerOnClick overlayCtrl_toggle s =
     (if \<not> disabled s \<and> \<not> readOnly s then overlayCtrl_toggle s else s)"

text \<open>
  The handlers \<^verbatim>\<open>__setupOverlay\<close> subscribes to the overlay's \<^verbatim>\<open>show\<close> and \<^verbatim>\<open>hide\<close>
  notifications. Calling \<^verbatim>\<open>focus()\<close> on a node that is absent throws, with the state as
  it is at that point: in the \<^verbatim>\<open>show\<close> handler after the assignment to \<open>activeIndex\<close>.
\<close>

definition overlayOnShow :: "selectRich \<Rightarrow> (error \<times> selectRich) + selectRich" where
  "overlayOnShow s =
     (let s1 = (if checkedIndex s \<noteq> Undefined \<and> checkedIndex s \<noteq> Null
                then s\<lparr>activeIndex := checkedIndex s\<rparr> else s)
      in if listboxNode s1 then Inr (s1\<lparr>focused := Some ListboxNode\<rparr>)
         else Inl (TypeError, s1))"

definition overlayOnHide :: "selectRich \<Rightarrow> (error \<times> selectRich) + selectRich" where
  "overlayOnHide s =
     (case invokerNode s of
        None \<Rightarrow> Inl (TypeError, s)
      | Some ivk \<Rightarrow> Inr (s\<lparr>focused := Some InvokerNode\<rparr>))"

definition toggleInvokerDisabled :: "selectRich \<Rightarrow> selectRich" where
  "toggleInvokerDisabled s =
     (case invokerNode s of
        None \<Rightarrow> s
      | Some ivk \<Rightarrow>
          s\<lparr>invokerNode := Some (ivk\<lparr>inv_disabled := disabled s, inv_readOnly := readOnly s\<rparr>)\<rparr>)"

definition syncInvokerElement :: "selectRich \<Rightarrow> selectRich" where
  "syncInvokerElement s =
     (case invokerNode s of
        None \<Rightarrow> s
      | Some ivk \<Rightarrow>
          s\<lparr>invokerNode :=
               Some (ivk\<lparr>selectedElement := at_idx (formElements s) (checkedIndex s)\<rparr>)\<rparr>)"

text \<open>
  \<^verbatim>\<open>_requestUpdate\<close>: the inherited part schedules the re-render and is not modelled;
  the override reacts to three property names.
\<close>

definition requestUpdate :: "string \<Rightarrow> selectRich \<Rightarrow> selectRich" where
  "requestUpdate name s =
     (let s1 = (if name = ''disabled'' \<or> name = ''readOnly'' then toggleInvokerDisabled s else s)
      in if name = ''modelValue'' then syncInvokerElement s1 else s1)"

text \<open>
  \<^verbatim>\<open>LionSelectInvoker._contentTemplate\<close>: the clones of all descendant elements of the
  selected element when it has any, else its text content, else the empty string.
\<close>

datatype template = Nodes "node list" | Text string

definition contentTemplate :: "invoker \<Rightarrow> template" where
  "contentTemplate ivk =
     (case selectedElement ivk of
        None \<Rightarrow> Text []
      | Some el \<Rightarrow>
          (let labelNodes = querySelectorAll_any el
           in if length labelNodes > 0 then Nodes (map (cloneNode True) labelNodes)
              else Text (textContent el)))"

section \<open>Notions used in the statements\<close>

text \<open>
  The text a rendered template shows, and the elements that contain no further element.
\<close>

fun templateText :: "template \<Rightarrow> string" where
  "templateText (Nodes ns) = concat (map textIn ns)"
| "templateText (Text t) = t"

definition leafElement :: "node \<Rightarrow> bool" where
  "leafElement n =
     (case n of TextNode t \<Rightarrow> False | ElementNode tag cs \<Rightarrow> concat (map elementsIn cs) = [])"

text \<open>The state an operation leaves behind, whether it returned or threw.\<close>

definition state_of :: "tabs result \<Rightarrow> tabs" where
  "state_of r = (case r of Inl (err, s) \<Rightarrow> s | Inr s \<Rightarrow> s)"

text \<open>
  An index refers to an entry of the registry; a keyup of one key on a trigger, and the
  indices committed by \<open>n\<close> of them in a row.
\<close>

definition in_registry :: "tabs \<Rightarrow> int \<Rightarrow> bool" where
  "in_registry s i = (case store s of None \<Rightarrow> False | Some es \<Rightarrow> 0 \<le> i \<and> i < int (length es))"

definition keyup :: "string \<Rightarrow> tabs \<Rightarrow> tabs" where
  "keyup k s =
     (case handleButtonKeydown \<lparr>key = k, defaultPrevented = False\<rparr> s of
        Inl (err, e, s1) \<Rightarrow> s1
      | Inr (e, s1) \<Rightarrow> s1)"

fun visited :: "string \<Rightarrow> nat \<Rightarrow> tabs \<Rightarrow> int list" where
  "visited k 0 s = []"
| "visited k (Suc n) s = selectedIndex (keyup k s) # visited k n (keyup k s)"

text \<open>
  The three attributes that tell a selected trigger from a deselected one, as a triple:
  \<^verbatim>\<open>selected\<close>, \<^verbatim>\<open>aria-selected\<close> and \<^verbatim>\<open>tabindex\<close>; and the two values
  \<^verbatim>\<open>selectButton\<close> and \<^verbatim>\<open>deselectButton\<close> leave there.
\<close>

definition mark :: "dom \<Rightarrow> elem_id \<Rightarrow> string option \<times> string option \<times> string option" where
  "mark d el = (getAttribute d el ''selected'', getAttribute d el ''aria-selected'',
                getAttribute d el ''tabindex'')"

definition marked :: "string option \<times> string option \<times> string option" where
  "marked = (Some ''true'', Some ''true'', Some ''0'')"

definition unmarked :: "string option \<times> string option \<times> string option" where
  "unmarked = (None, Some ''false'', Some ''-1'')"


text \<open>
  The invariant of the synchronisation: the registry lists the descendants in the
  \<^verbatim>\<open>tab\<close> slot in order, all of them direct children, entries' panels are not triggers, every trigger carries one of the two triples, and at
  most one carries the selected one; in a coherent state the entry at \<open>selectedIndex\<close>,
  if there is one, carries it.
\<close>

definition wired :: "tabs \<Rightarrow> bool" where
  "wired s =
     (case store s of
        None \<Rightarrow> True
      | Some es \<Rightarrow>
          map button es = slotted ''tab'' s \<and> distinct (descendants s) \<and>
          set (children s) \<subseteq> set (descendants s) \<and>
          (\<forall>x\<in>set (descendants s). slot (nodes s x) = ''tab'' \<longrightarrow> x \<in> set (children s)) \<and>
          (\<forall>e\<in>set es. \<forall>p. panel e = Some p \<longrightarrow> slot (nodes s p) \<noteq> ''tab'') \<and>
          (\<forall>b\<in>set (slotted ''tab'' s).
             mark (nodes s) b = marked \<or> mark (nodes s) b = unmarked) \<and>
          (\<forall>b\<in>set (slotted ''tab'' s). \<forall>c\<in>set (slotted ''tab'' s).
             mark (nodes s) b = marked \<and> mark (nodes s) c = marked \<longrightarrow> b = c))"

definition coherent :: "tabs \<Rightarrow> bool" where
  "coherent s =
     (wired s \<and>
      (case store s of
         None \<Rightarrow> True
       | Some es \<Rightarrow>
           (case at_index es (selectedIndex s) of
              None \<Rightarrow> True
            | Some cur \<Rightarrow> mark (nodes s) (button cur) = marked)))"

section \<open>Example inputs\<close>

text \<open>
  Four options, the second disabled, in the immediate-commit interaction mode with the
  first option checked and the overlay closed.
\<close>

definition demo_options :: "formElement list" where
  "demo_options =
     [\<lparr>opt_disabled = False, childNodes = [TextNode ''Red'']\<rparr>,
      \<lparr>opt_disabled = True, childNodes = [TextNode ''Green'']\<rparr>,
      \<lparr>opt_disabled = False, childNodes = [ElementNode ''b'' [TextNode ''Blue'']]\<rparr>,
      \<lparr>opt_disabled = False,
       childNodes = [ElementNode ''div'' [ElementNode ''span'' [TextNode ''x'']]]\<rparr>]"

definition demo_select :: selectRich where
  "demo_select =
     \<lparr>disabled = False, readOnly = False, opened = False, interactionMode = ''windows/linux'',
      checkedIndex = Num 0, activeIndex = Num 0, formElements = demo_options,
      invokerNode = Some \<lparr>selectedElement = None, inv_disabled = False, inv_readOnly = False\<rparr>,
      listboxNode = True, focused = None\<rparr>"

definition arrowDown :: event where
  "arrowDown = \<lparr>key = ''ArrowDown'', defaultPrevented = False\<rparr>"

definition arrowUp :: event where
  "arrowUp = \<lparr>key = ''ArrowUp'', defaultPrevented = False\<rparr>"

text \<open>No option checked, with a highlight left on the last option; and the last option checked.\<close>

definition demo_unset :: selectRich where
  "demo_unset = demo_select\<lparr>checkedIndex := Undefined, activeIndex := Num 3\<rparr>"

definition demo_nested :: selectRich where
  "demo_nested = demo_select\<lparr>checkedIndex := Num 3\<rparr>"

text \<open>A single checked option that reads \<^verbatim>\<open>Hello <b>World</b>\<close>.\<close>

definition demo_mixed :: selectRich where
  "demo_mixed =
     demo_select\<lparr>formElements :=
                   [\<lparr>opt_disabled = False,
                     childNodes = [TextNode ''Hello '', ElementNode ''b'' [TextNode ''World'']]\<rparr>]\<rparr>"

text \<open>
  A document whose even-numbered elements are tab triggers and odd-numbered elements are
  panels, all without attributes or listeners; a host that has been constructed and first
  updated over it; and that host after its first rebuild with three triggers and three
  panels as children.
\<close>

definition demo_doc :: dom where
  "demo_doc =
     (\<lambda>i. \<lparr>slot = (if even i then ''tab'' else ''panel''), attrs = Map.empty,
           listeners = []\<rparr>)"

definition demo_random :: "nat \<Rightarrow> string" where
  "demo_random n = replicate (Suc n) CHR ''u''"

definition demo_init :: tabs where
  "demo_init = firstUpdated (constructed demo_doc demo_random)"

definition demo_tabs :: tabs where
  "demo_tabs = state_of (rebuild [0, 1, 2, 3, 4, 5] demo_init)"


text \<open>
  A host with one trigger and one panel as children and a second trigger and panel
  nested inside the first panel, after its first \<^verbatim>\<open>slotchange\<close>.
\<close>

definition demo_inner :: tabs where
  "demo_inner = state_of (slotchange [0, 1, 2, 3] [0, 1] demo_init)"

section \<open>Properties of the rich select\<close>

subsection \<open>The scans over the options\<close>

declare scanUp.simps [simp del] scanDown.simps [simp del]

lemma enabledAt_range: "enabledAt els k \<Longrightarrow> 0 \<le> k \<and> k < int (length els)"
  by (auto simp: enabledAt_def at_index_def split: if_splits)

lemma scanUp_None: "scanUp els i = None \<longleftrightarrow> (\<forall>k\<ge>i. \<not> enabledAt els k)"
proof (induction els i rule: scanUp.induct)
  case (1 els i)
  show ?case
  proof (cases "i < int (length els)")
    case False
    then show ?thesis using enabledAt_range[of els] by (subst scanUp.simps) force
  next
    case True
    show ?thesis
    proof (cases "enabledAt els i")
      case True
      then show ?thesis using \<open>i < int (length els)\<close> by (subst scanUp.simps) auto
    next
      case False
      have "(\<forall>k\<ge>i. \<not> enabledAt els k) \<longleftrightarrow> (\<forall>k\<ge>i + 1. \<not> enabledAt els k)"
      proof
        assume a: "\<forall>k\<ge>i + 1. \<not> enabledAt els k"
        show "\<forall>k\<ge>i. \<not> enabledAt els k"
        proof (intro allI impI)
          fix k assume "i \<le> k"
          then consider "k = i" | "i + 1 \<le> k" by linarith
          then show "\<not> enabledAt els k" using False a by cases auto
        qed
      qed auto
      then show ?thesis using 1 True False by (subst scanUp.simps) simp
    qed
  qed
qed

lemma scanUp_Some:
  "scanUp els i = Some j \<Longrightarrow> i \<le> j \<and> enabledAt els j \<and> (\<forall>k. i \<le> k \<and> k < j \<longrightarrow> \<not> enabledAt els k)"
proof (induction els i rule: scanUp.induct)
  case (1 els i)
  show ?case
  proof (cases "i < int (length els) \<and> \<not> enabledAt els i")
    case True
    then have "scanUp els (i + 1) = Some j" using "1.prems" by (subst (asm) scanUp.simps) simp
    then have ih: "i + 1 \<le> j \<and> enabledAt els j \<and> (\<forall>k. i + 1 \<le> k \<and> k < j \<longrightarrow> \<not> enabledAt els k)"
      using 1 True by simp
    have "\<not> enabledAt els k" if "i \<le> k \<and> k < j" for k
    proof -
      from that consider "k = i" | "i + 1 \<le> k \<and> k < j" by linarith
      then show ?thesis using True ih by cases auto
    qed
    then show ?thesis using ih by auto
  next
    case False
    then show ?thesis using "1.prems" by (subst (asm) scanUp.simps) (auto split: if_splits)
  qed
qed

lemma scanDown_None: "scanDown els i = None \<longleftrightarrow> (\<forall>k\<le>i. \<not> enabledAt els k)"
proof (induction els i rule: scanDown.induct)
  case (1 els i)
  show ?case
  proof (cases "i \<ge> 0")
    case False
    then show ?thesis using enabledAt_range[of els] by (subst scanDown.simps) force
  next
    case True
    show ?thesis
    proof (cases "enabledAt els i")
      case True
      then show ?thesis using \<open>i \<ge> 0\<close> by (subst scanDown.simps) auto
    next
      case False
      have "(\<forall>k\<le>i. \<not> enabledAt els k) \<longleftrightarrow> (\<forall>k\<le>i - 1. \<not> enabledAt els k)"
      proof
        assume a: "\<forall>k\<le>i - 1. \<not> enabledAt els k"
        show "\<forall>k\<le>i. \<not> enabledAt els k"
        proof (intro allI impI)
          fix k assume "k \<le> i"
          then consider "k = i" | "k \<le> i - 1" by linarith
          then show "\<not> enabledAt els k" using False a by cases auto
        qed
      qed auto
      then show ?thesis using 1 True False by (subst scanDown.simps) simp
    qed
  qed
qed

lemma scanDown_Some:
  "scanDown els i = Some j \<Longrightarrow> j \<le> i \<and> enabledAt els j \<and> (\<forall>k. j < k \<and> k \<le> i \<longrightarrow> \<not> enabledAt els k)"
proof (induction els i rule: scanDown.induct)
  case (1 els i)
  show ?case
  proof (cases "i \<ge> 0 \<and> \<not> enabledAt els i")
    case True
    then have "scanDown els (i - 1) = Some j" using "1.prems" by (subst (asm) scanDown.simps) simp
    then have ih: "j \<le> i - 1 \<and> enabledAt els j \<and> (\<forall>k. j < k \<and> k \<le> i - 1 \<longrightarrow> \<not> enabledAt els k)"
      using 1 True by simp
    have "\<not> enabledAt els k" if "j < k \<and> k \<le> i" for k
    proof -
      from that consider "k = i" | "j < k \<and> k \<le> i - 1" by linarith
      then show ?thesis using True ih by cases auto
    qed
    then show ?thesis using ih by auto
  next
    case False
    then show ?thesis using "1.prems" by (subst (asm) scanDown.simps) (auto split: if_splits)
  qed
qed

text \<open>
  Claim C2. With the overlay closed and the host not disabled, a keyup of ArrowDown or
  ArrowUp in the \<^verbatim>\<open>mac\<close> interaction mode sets \<open>opened\<close> and leaves \<open>checkedIndex\<close>
  as it is; in any other mode it leaves \<open>opened\<close> false and moves \<open>checkedIndex\<close> to the
  nearest following (ArrowDown) or preceding (ArrowUp) entry that is not disabled, and
  leaves it where it is when there is none: no wraparound.
\<close>

theorem closed_overlay_arrow_keys:
  assumes "\<not> disabled s" and "\<not> opened s"
  shows "(interactionMode s = ''mac'' \<and> (key ev = ''ArrowDown'' \<or> key ev = ''ArrowUp'') \<longrightarrow>
            opened (snd (onKeyUp ev s)) \<and> checkedIndex (snd (onKeyUp ev s)) = checkedIndex s) \<and>
         (interactionMode s \<noteq> ''mac'' \<and> key ev = ''ArrowDown'' \<and> checkedIndex s = Num i \<longrightarrow>
            \<not> opened (snd (onKeyUp ev s)) \<and>
            (\<exists>j. checkedIndex (snd (onKeyUp ev s)) = Num j \<and>
                 (if \<exists>k. i < k \<and> enabledAt (formElements s) k
                  then i < j \<and> enabledAt (formElements s) j \<and>
                       (\<forall>k. i < k \<and> k < j \<longrightarrow> \<not> enabledAt (formElements s) k)
                  else j = i))) \<and>
         (interactionMode s \<noteq> ''mac'' \<and> key ev = ''ArrowUp'' \<and> checkedIndex s = Num i \<longrightarrow>
            \<not> opened (snd (onKeyUp ev s)) \<and>
            (\<exists>j. checkedIndex (snd (onKeyUp ev s)) = Num j \<and>
                 (if \<exists>k. k < i \<and> enabledAt (formElements s) k
                  then j < i \<and> enabledAt (formElements s) j \<and>
                       (\<forall>k. j < k \<and> k < i \<longrightarrow> \<not> enabledAt (formElements s) k)
                  else j = i)))"
proof (intro conjI impI)
  assume "interactionMode s = ''mac'' \<and> (key ev = ''ArrowDown'' \<or> key ev = ''ArrowUp'')"
  then show "opened (snd (onKeyUp ev s))" and "checkedIndex (snd (onKeyUp ev s)) = checkedIndex s"
    using assms by (auto simp: onKeyUp_def Let_def)
next
  assume a: "interactionMode s \<noteq> ''mac'' \<and> key ev = ''ArrowDown'' \<and> checkedIndex s = Num i"
  then show "\<not> opened (snd (onKeyUp ev s))"
    using assms by (simp add: onKeyUp_def Let_def)
  let ?els = "formElements s"
  have r: "checkedIndex (snd (onKeyUp ev s)) = getNextEnabledOption ?els (Num i) 1"
    using a assms by (simp add: onKeyUp_def Let_def)
  show "\<exists>j. checkedIndex (snd (onKeyUp ev s)) = Num j \<and>
            (if \<exists>k. i < k \<and> enabledAt ?els k
             then i < j \<and> enabledAt ?els j \<and> (\<forall>k. i < k \<and> k < j \<longrightarrow> \<not> enabledAt ?els k)
             else j = i)"
  proof (cases "scanUp ?els (i + 1)")
    case None
    then have "\<not> (\<exists>k. i < k \<and> enabledAt ?els k)" by (auto simp: scanUp_None)
    then show ?thesis using r None by (simp add: getNextEnabledOption_def)
  next
    case (Some j)
    from scanUp_Some[OF Some]
    have "i < j" "enabledAt ?els j" "\<forall>k. i < k \<and> k < j \<longrightarrow> \<not> enabledAt ?els k" by auto
    then show ?thesis using r Some by (auto simp: getNextEnabledOption_def)
  qed
next
  assume a: "interactionMode s \<noteq> ''mac'' \<and> key ev = ''ArrowUp'' \<and> checkedIndex s = Num i"
  then show "\<not> opened (snd (onKeyUp ev s))"
    using assms by (simp add: onKeyUp_def Let_def)
  let ?els = "formElements s"
  have r: "checkedIndex (snd (onKeyUp ev s)) = getPreviousEnabledOption ?els (Num i) (- 1)"
    using a assms by (simp add: onKeyUp_def Let_def)
  show "\<exists>j. checkedIndex (snd (onKeyUp ev s)) = Num j \<and>
            (if \<exists>k. k < i \<and> enabledAt ?els k
             then j < i \<and> enabledAt ?els j \<and> (\<forall>k. j < k \<and> k < i \<longrightarrow> \<not> enabledAt ?els k)
             else j = i)"
  proof (cases "scanDown ?els (i - 1)")
    case None
    then have "\<not> (\<exists>k. k < i \<and> enabledAt ?els k)" by (auto simp: scanDown_None)
    then show ?thesis using r None by (simp add: getPreviousEnabledOption_def)
  next
    case (Some j)
    from scanDown_Some[OF Some]
    have "j < i" "enabledAt ?els j" "\<forall>k. j < k \<and> k < i \<longrightarrow> \<not> enabledAt ?els k" by auto
    then show ?thesis using r Some by (auto simp: getPreviousEnabledOption_def)
  qed
qed

lemma demo_enabled: "enabledAt demo_options 2" "\<not> enabledAt demo_options 1" "enabledAt demo_options 0"
  by code_simp+

text \<open>
  The scenario of the spec: the first of four options checked, the second disabled;
  ArrowDown moves to the third. In the \<^verbatim>\<open>mac\<close> mode ArrowUp opens the overlay.
\<close>

theorem closed_overlay_arrow_keys_witness:
  "checkedIndex (snd (onKeyUp arrowDown demo_select)) = Num 2 \<and>
   \<not> opened (snd (onKeyUp arrowDown demo_select)) \<and>
   opened (snd (onKeyUp arrowUp (demo_select\<lparr>interactionMode := ''mac''\<rparr>))) \<and>
   checkedIndex (snd (onKeyUp arrowUp (demo_select\<lparr>interactionMode := ''mac''\<rparr>))) = Num 0"
proof -
  have h: "\<not> disabled demo_select" "\<not> opened demo_select"
    "interactionMode demo_select \<noteq> ''mac''" "checkedIndex demo_select = Num 0"
    "formElements demo_select = demo_options"
    by (simp_all add: demo_select_def)
  have k: "key arrowDown = ''ArrowDown''" "key arrowUp = ''ArrowUp''"
    by (simp_all add: arrowDown_def arrowUp_def)
  have "\<not> opened (snd (onKeyUp arrowDown demo_select)) \<and>
        (\<exists>j. checkedIndex (snd (onKeyUp arrowDown demo_select)) = Num j \<and>
             (if \<exists>k. 0 < k \<and> enabledAt demo_options k
              then 0 < j \<and> enabledAt demo_options j \<and>
                   (\<forall>k. 0 < k \<and> k < j \<longrightarrow> \<not> enabledAt demo_options k)
              else j = 0))"
    using closed_overlay_arrow_keys[OF h(1,2), of arrowDown 0, unfolded h(5)] h(3,4) k(1)
    by blast
  then obtain j where no: "\<not> opened (snd (onKeyUp arrowDown demo_select))"
    and j: "checkedIndex (snd (onKeyUp arrowDown demo_select)) = Num j"
      "if \<exists>k. 0 < k \<and> enabledAt demo_options k
       then 0 < j \<and> enabledAt demo_options j \<and>
            (\<forall>k. 0 < k \<and> k < j \<longrightarrow> \<not> enabledAt demo_options k)
       else j = 0"
    by blast
  have "\<exists>k. 0 < k \<and> enabledAt demo_options k" using demo_enabled(1) by (intro exI[of _ 2]) simp
  with j(2) have p: "0 < j" "enabledAt demo_options j" "\<forall>k. 0 < k \<and> k < j \<longrightarrow> \<not> enabledAt demo_options k"
    by auto
  have "j \<noteq> 1" using p(2) demo_enabled(2) by auto
  moreover have "\<not> 2 < j" using p(3) demo_enabled(1) by auto
  ultimately have "j = 2" using p(1) by linarith
  moreover
  have "\<not> disabled (demo_select\<lparr>interactionMode := ''mac''\<rparr>)" "\<not> opened (demo_select\<lparr>interactionMode := ''mac''\<rparr>)"
    by (simp_all add: demo_select_def)
  from closed_overlay_arrow_keys[OF this, of arrowUp 0] k
  have "opened (snd (onKeyUp arrowUp (demo_select\<lparr>interactionMode := ''mac''\<rparr>)))"
       "checkedIndex (snd (onKeyUp arrowUp (demo_select\<lparr>interactionMode := ''mac''\<rparr>))) = Num 0"
    by (simp_all add: demo_select_def)
  ultimately show ?thesis using j(1) no by simp
qed

text \<open>
  Claim C10. While the host is disabled a keyup changes nothing: the handler returns the
  state and the event as they were. While it is disabled or read-only a click on the
  invoker does not reach the overlay's toggle, whatever that toggle does.
\<close>

theorem disabled_or_readonly_frame:
  "(disabled s \<longrightarrow> onKeyUp ev s = (ev, s)) \<and>
   (disabled s \<or> readOnly s \<longrightarrow> invokerOnClick overlayCtrl_toggle s = s)"
  by (auto simp: onKeyUp_def invokerOnClick_def)

theorem disabled_or_readonly_frame_witness:
  "onKeyUp arrowDown (demo_select\<lparr>disabled := True\<rparr>) = (arrowDown, demo_select\<lparr>disabled := True\<rparr>) \<and>
   invokerOnClick toggle (demo_select\<lparr>readOnly := True\<rparr>) = demo_select\<lparr>readOnly := True\<rparr> \<and>
   invokerOnClick toggle demo_select \<noteq> demo_select"
proof -
  have "disabled (demo_select\<lparr>disabled := True\<rparr>)" "readOnly (demo_select\<lparr>readOnly := True\<rparr>)"
    by simp_all
  with disabled_or_readonly_frame[of "demo_select\<lparr>disabled := True\<rparr>" arrowDown toggle]
       disabled_or_readonly_frame[of "demo_select\<lparr>readOnly := True\<rparr>" arrowDown toggle]
  show ?thesis by (simp add: invokerOnClick_def toggle_def demo_select_def)
qed

subsection \<open>Overlay transitions\<close>

text \<open>
  With no option checked the \<^verbatim>\<open>show\<close> handler leaves \<open>activeIndex\<close> where it was: here
  on the last option, not on the first.
\<close>

theorem overlay_show_hide_counterexample:
  "checkedIndex demo_unset = Undefined \<and>
   overlayOnShow demo_unset = Inr (demo_unset\<lparr>focused := Some ListboxNode\<rparr>) \<and>
   activeIndex (demo_unset\<lparr>focused := Some ListboxNode\<rparr>) = Num 3"
  by code_simp

text \<open>
  Claim C7, amended. When the overlay shows, \<open>activeIndex\<close> is assigned from
  \<open>checkedIndex\<close> if that is set and is left unchanged if it is unset, and focus moves to
  the listbox node; when the overlay hides, focus moves to the invoker node. Nothing
  else changes.
\<close>

theorem overlay_show_hide:
  "(listboxNode s \<longrightarrow>
      overlayOnShow s =
        Inr (s\<lparr>activeIndex := (if checkedIndex s = Undefined \<or> checkedIndex s = Null
                               then activeIndex s else checkedIndex s),
               focused := Some ListboxNode\<rparr>)) \<and>
   (invokerNode s \<noteq> None \<longrightarrow> overlayOnHide s = Inr (s\<lparr>focused := Some InvokerNode\<rparr>))"
  by (auto simp: overlayOnShow_def overlayOnHide_def Let_def split: option.splits)

theorem overlay_show_hide_witness:
  "overlayOnShow demo_select = Inr (demo_select\<lparr>activeIndex := Num 0, focused := Some ListboxNode\<rparr>) \<and>
   overlayOnShow demo_unset = Inr (demo_unset\<lparr>activeIndex := Num 3, focused := Some ListboxNode\<rparr>) \<and>
   overlayOnHide demo_select = Inr (demo_select\<lparr>focused := Some InvokerNode\<rparr>)"
proof -
  have "listboxNode demo_select" "listboxNode demo_unset" "invokerNode demo_select \<noteq> None"
    by (simp_all add: demo_select_def demo_unset_def)
  with overlay_show_hide[of demo_select] overlay_show_hide[of demo_unset]
  show ?thesis by (simp add: demo_select_def demo_unset_def)
qed

subsection \<open>The invoker mirror\<close>

lemma cloneNode_deep: "cloneNode True n = n"
  by (induction n) (simp_all add: map_idI)

lemma leaf_elements: "\<forall>n\<in>set ns. leafElement n \<Longrightarrow> concat (map elementsIn ns) = ns"
proof (induction ns)
  case Nil
  then show ?case by simp
next
  case (Cons n ns)
  then obtain tag cs where n: "n = ElementNode tag cs" "concat (map elementsIn cs) = []"
    by (cases n) (auto simp: leafElement_def)
  with Cons show ?case by simp
qed

text \<open>
  Claim C8. The display region does not always show a clone of the checked entry's
  content. The last example option holds a \<^verbatim>\<open>span\<close> inside a \<^verbatim>\<open>div\<close> and shows the
  text \<^verbatim>\<open>x\<close>; once it is checked the invoker renders the \<^verbatim>\<open>div\<close> and the \<^verbatim>\<open>span\<close>
  side by side and shows \<^verbatim>\<open>xx\<close>. An option that reads \<^verbatim>\<open>Hello <b>World</b>\<close> is mirrored
  as \<^verbatim>\<open>World\<close>: the text beside the element is dropped.
\<close>

theorem invoker_mirror_duplicates_nested:
  "at_idx (formElements demo_nested) (checkedIndex demo_nested) = Some (demo_options ! 3) \<and>
   textContent (demo_options ! 3) = ''x'' \<and>
   map_option (templateText \<circ> contentTemplate) (invokerNode (requestUpdate ''modelValue'' demo_nested))
     = Some ''xx'' \<and>
   map_option textContent (at_idx (formElements demo_mixed) (checkedIndex demo_mixed))
     = Some ''Hello World'' \<and>
   map_option (templateText \<circ> contentTemplate) (invokerNode (requestUpdate ''modelValue'' demo_mixed))
     = Some ''World''"
  by code_simp

text \<open>
  Where the mirror is right: after an update request for \<^verbatim>\<open>modelValue\<close> the invoker's
  selected element is the entry at \<open>checkedIndex\<close>; its display region renders the empty
  string when there is no such entry, the entry's text when the entry holds no element,
  and clones of its children when these are all elements without nested elements.
\<close>

lemma invoker_mirror_plain_entries:
  assumes "invokerNode s = Some ivk"
  shows "\<exists>ivk'. invokerNode (requestUpdate ''modelValue'' s) = Some ivk' \<and>
           selectedElement ivk' = at_idx (formElements s) (checkedIndex s) \<and>
           (case at_idx (formElements s) (checkedIndex s) of
              None \<Rightarrow> contentTemplate ivk' = Text []
            | Some el \<Rightarrow>
                (querySelectorAll_any el = [] \<longrightarrow> contentTemplate ivk' = Text (textContent el)) \<and>
                ((\<forall>n\<in>set (childNodes el). leafElement n) \<and> childNodes el \<noteq> [] \<longrightarrow>
                   contentTemplate ivk' = Nodes (map (cloneNode True) (childNodes el))))"
proof -
  let ?ivk = "ivk\<lparr>selectedElement := at_idx (formElements s) (checkedIndex s)\<rparr>"
  have 1: "invokerNode (requestUpdate ''modelValue'' s) = Some ?ivk"
    using assms by (simp add: requestUpdate_def syncInvokerElement_def)
  have 2: "contentTemplate ?ivk =
             (case at_idx (formElements s) (checkedIndex s) of
                None \<Rightarrow> Text []
              | Some el \<Rightarrow> if querySelectorAll_any el = [] then Text (textContent el)
                           else Nodes (map (cloneNode True) (querySelectorAll_any el)))"
    by (simp add: contentTemplate_def Let_def split: option.splits)
  have 3: "querySelectorAll_any el = childNodes el" if "\<forall>n\<in>set (childNodes el). leafElement n" for el
    using that by (simp add: querySelectorAll_any_def leaf_elements)
  show ?thesis
  proof (intro exI[of _ ?ivk] conjI)
    show "invokerNode (requestUpdate ''modelValue'' s) = Some ?ivk" by (rule 1)
    show "selectedElement ?ivk = at_idx (formElements s) (checkedIndex s)" by simp
    show "case at_idx (formElements s) (checkedIndex s) of
            None \<Rightarrow> contentTemplate ?ivk = Text []
          | Some el \<Rightarrow>
              (querySelectorAll_any el = [] \<longrightarrow> contentTemplate ?ivk = Text (textContent el)) \<and>
              ((\<forall>n\<in>set (childNodes el). leafElement n) \<and> childNodes el \<noteq> [] \<longrightarrow>
                 contentTemplate ?ivk = Nodes (map (cloneNode True) (childNodes el)))"
    proof (cases "at_idx (formElements s) (checkedIndex s)")
      case None
      then show ?thesis using 2 by simp
    next
      case (Some el)
      have "contentTemplate ?ivk = Nodes (map (cloneNode True) (childNodes el))"
        if "\<forall>n\<in>set (childNodes el). leafElement n" "childNodes el \<noteq> []"
        using 2 3[OF that(1)] that(2) Some by simp
      then show ?thesis using 2 Some by simp
    qed
  qed
qed

section \<open>Properties of the tab group\<close>

subsection \<open>What the setter and the synchronisation leave alone\<close>

lemma updateSelected_frame:
  "store (updateSelected s) = store s"
  "children (updateSelected s) = children s"
  "descendants (updateSelected s) = descendants s"
  "selectedIndex (updateSelected s) = selectedIndex s"
  "dispatched (updateSelected s) = dispatched s"
  "warnings (updateSelected s) = warnings s"
  "firstUpdate (updateSelected s) = firstUpdate s"
  "random (updateSelected s) = random s"
  "draws (updateSelected s) = draws s"
  "closures (updateSelected s) = closures s"
  by (simp_all add: updateSelected_def selectButton_def Let_def split: option.splits)

lemma updateSelected_outside:
  "\<not> in_registry s (selectedIndex s) \<Longrightarrow> updateSelected s = s"
  by (auto simp: updateSelected_def in_registry_def at_index_def split: option.splits)

lemma set_selectedIndex_frame:
  "store (set_selectedIndex v s) = store s"
  "children (set_selectedIndex v s) = children s"
  "descendants (set_selectedIndex v s) = descendants s"
  "selectedIndex (set_selectedIndex v s) = v"
  "dispatched (set_selectedIndex v s) = dispatched s @ [''selected-changed'']"
  "warnings (set_selectedIndex v s) = warnings s"
  "firstUpdate (set_selectedIndex v s) = False"
  "random (set_selectedIndex v s) = random s"
  "draws (set_selectedIndex v s) = draws s"
  "closures (set_selectedIndex v s) = closures s"
  by (simp_all add: set_selectedIndex_def Let_def updateSelected_frame)

lemma pairCount_set_selectedIndex: "pairCount (set_selectedIndex v s) = pairCount s"
  by (simp add: pairCount_def set_selectedIndex_frame)

subsection \<open>The commit setter\<close>

text \<open>
  With three entries, setting \<open>selectedIndex\<close> to 5 stores 5 and dispatches
  \<^verbatim>\<open>selected-changed\<close>.
\<close>

theorem setter_accepts_every_index_counterexample:
  "\<not> in_registry demo_tabs 5 \<and> selectedIndex demo_tabs = 0 \<and>
   selectedIndex (set_selectedIndex 5 demo_tabs) = 5 \<and>
   dispatched (set_selectedIndex 5 demo_tabs) = dispatched demo_tabs @ [''selected-changed'']"
  by code_simp

text \<open>
  Claim C1, amended. The setter of the tab group rejects nothing: it stores every index
  and dispatches one \<^verbatim>\<open>selected-changed\<close> each time. For an index outside the registry
  (or with no registry built) that is all it does: no attribute, listener or focus
  changes.
\<close>

theorem setter_accepts_every_index:
  "selectedIndex (set_selectedIndex i s) = i \<and>
   dispatched (set_selectedIndex i s) = dispatched s @ [''selected-changed''] \<and>
   (\<not> in_registry s i \<longrightarrow>
      set_selectedIndex i s =
        s\<lparr>selectedIndex := i, firstUpdate := False,
          dispatched := dispatched s @ [''selected-changed'']\<rparr>)"
proof -
  have "updateSelected (s\<lparr>firstUpdate := False, selectedIndex := i\<rparr>) = s\<lparr>firstUpdate := False, selectedIndex := i\<rparr>"
    if "\<not> in_registry s i"
    using that by (intro updateSelected_outside) (simp add: in_registry_def)
  then show ?thesis
    by (simp add: set_selectedIndex_frame) (simp add: set_selectedIndex_def)
qed

theorem setter_accepts_every_index_witness:
  "nodes (set_selectedIndex 5 demo_tabs) = nodes demo_tabs \<and>
   activeElement (set_selectedIndex 5 demo_tabs) = activeElement demo_tabs \<and>
   selectedIndex (set_selectedIndex 5 demo_tabs) = 5"
proof -
  have "\<not> in_registry demo_tabs 5" by code_simp
  with setter_accepts_every_index[of 5 demo_tabs]
  have "set_selectedIndex 5 demo_tabs =
          demo_tabs\<lparr>selectedIndex := 5, firstUpdate := False,
            dispatched := dispatched demo_tabs @ [''selected-changed'']\<rparr>"
    by blast
  then show ?thesis by simp
qed


subsection \<open>The keyboard policy\<close>

lemma handleButtonKeydown_next:
  assumes "pairCount s = Inr N" and "key e = ''ArrowRight'' \<or> key e = ''ArrowDown''"
  shows "handleButtonKeydown e s =
           Inr (e, set_selectedIndex (if selectedIndex s + 1 \<ge> int N then 0 else selectedIndex s + 1) s)"
  using assms by (auto simp: handleButtonKeydown_def)

lemma handleButtonKeydown_previous:
  assumes "pairCount s = Inr N" and "key e = ''ArrowLeft'' \<or> key e = ''ArrowUp''"
  shows "handleButtonKeydown e s =
           Inr (preventDefault e,
                set_selectedIndex (if selectedIndex s \<le> 0 then int N - 1 else selectedIndex s - 1) s)"
  using assms by (auto simp: handleButtonKeydown_def Let_def)

lemma handleButtonKeydown_home:
  assumes "key e = ''Home''"
  shows "handleButtonKeydown e s = Inr (preventDefault e, set_selectedIndex 0 s)"
  using assms by (simp add: handleButtonKeydown_def)

lemma handleButtonKeydown_end:
  assumes "pairCount s = Inr N" and "key e = ''End''"
  shows "handleButtonKeydown e s = Inr (preventDefault e, set_selectedIndex (int N - 1) s)"
  using assms by (simp add: handleButtonKeydown_def)

lemma keyup_next:
  assumes "pairCount s = Inr N" and "k = ''ArrowRight'' \<or> k = ''ArrowDown''"
    and "0 \<le> selectedIndex s" and "selectedIndex s < int N"
  shows "keyup k s = set_selectedIndex ((selectedIndex s + 1) mod int N) s"
proof -
  have "(if selectedIndex s + 1 \<ge> int N then 0 else selectedIndex s + 1) = (selectedIndex s + 1) mod int N"
    using assms(3,4) by (auto simp: mod_pos_pos_trivial dest: antisym)
  moreover have "selectedIndex s + 1 = int N \<Longrightarrow> (selectedIndex s + 1) mod int N = 0" by simp
  ultimately show ?thesis
    using handleButtonKeydown_next[OF assms(1), of "\<lparr>key = k, defaultPrevented = False\<rparr>"] assms(2)
    by (simp add: keyup_def)
qed

lemma visited_next:
  assumes "k = ''ArrowRight'' \<or> k = ''ArrowDown''"
  shows "pairCount s = Inr N \<Longrightarrow> 0 \<le> selectedIndex s \<Longrightarrow> selectedIndex s < int N \<Longrightarrow>
         visited k n s = map (\<lambda>j. (selectedIndex s + int j) mod int N) [1..<Suc n]"
proof (induction n arbitrary: s)
  case 0
  then show ?case by simp
next
  case (Suc n)
  define t where "t = keyup k s"
  define c where "c = selectedIndex s"
  have ks: "t = set_selectedIndex ((c + 1) mod int N) s"
    unfolding t_def c_def using keyup_next[OF Suc.prems(1) assms Suc.prems(2,3)] .
  have N: "0 < int N" using Suc.prems by linarith
  have sel: "selectedIndex t = (c + 1) mod int N"
    unfolding ks by (rule set_selectedIndex_frame)
  have pc: "pairCount t = Inr N"
    unfolding ks pairCount_set_selectedIndex by (rule Suc.prems)
  have rng: "0 \<le> selectedIndex t" "selectedIndex t < int N"
    unfolding sel using N by simp_all
  have ih: "visited k n t = map (\<lambda>j. (selectedIndex t + int j) mod int N) [1..<Suc n]"
    by (rule Suc.IH[OF pc rng])
  have pointwise: "(selectedIndex t + int j) mod int N = (c + int (Suc j)) mod int N" for j
  proof -
    have "(selectedIndex t + int j) mod int N = ((c + 1) mod int N + int j) mod int N"
      by (simp only: sel)
    also have "\<dots> = (c + 1 + int j) mod int N" by (rule mod_add_left_eq)
    also have "c + 1 + int j = c + int (Suc j)" by simp
    finally show ?thesis .
  qed
  have "visited k (Suc n) s = selectedIndex t # visited k n t"
    unfolding t_def by simp
  also have "\<dots> = (c + int 1) mod int N # map (\<lambda>j. (c + int (Suc j)) mod int N) [1..<Suc n]"
    unfolding ih using pointwise sel by simp
  also have "\<dots> = map (\<lambda>j. (c + int j) mod int N) (1 # map Suc [1..<Suc n])"
    by (simp add: comp_def)
  also have "1 # map Suc [1..<Suc n] = [1..<Suc (Suc n)]"
    unfolding map_Suc_upt by (simp add: upt_rec)
  finally show ?case unfolding c_def .
qed

lemma full_cycle: "0 < N \<Longrightarrow> map (\<lambda>j. (0 + int j) mod int N) [1..<Suc N] = map int [1..<N] @ [0]"
proof -
  assume "0 < N"
  then have "[1..<Suc N] = [1..<N] @ [N]" by simp
  moreover have "map (\<lambda>j. (0 + int j) mod int N) [1..<N] = map int [1..<N]"
    by (rule map_cong) auto
  ultimately show ?thesis by simp
qed

text \<open>
  Claim C4. With \<open>N\<close> entries, ArrowRight and ArrowDown commit \<open>selectedIndex + 1\<close>, or 0
  from the last index on; ArrowLeft and ArrowUp commit \<open>selectedIndex - 1\<close>, or \<open>N - 1\<close>
  from index 0 down; Home commits 0 and End commits \<open>N - 1\<close>. Each goes through the
  setter at once, which stores the index and notifies. From index 0, \<open>N\<close> presses of the
  next key commit 1, 2, \<dots>, \<open>N - 1\<close>, 0 in this order.
\<close>

theorem tab_keyboard_policy:
  assumes "pairCount s = Inr N"
  shows "(key e = ''ArrowRight'' \<or> key e = ''ArrowDown'' \<longrightarrow>
            handleButtonKeydown e s =
              Inr (e, set_selectedIndex
                        (if selectedIndex s + 1 \<ge> int N then 0 else selectedIndex s + 1) s)) \<and>
         (key e = ''ArrowLeft'' \<or> key e = ''ArrowUp'' \<longrightarrow>
            handleButtonKeydown e s =
              Inr (preventDefault e,
                   set_selectedIndex
                     (if selectedIndex s \<le> 0 then int N - 1 else selectedIndex s - 1) s)) \<and>
         (key e = ''Home'' \<longrightarrow>
            handleButtonKeydown e s = Inr (preventDefault e, set_selectedIndex 0 s)) \<and>
         (key e = ''End'' \<longrightarrow>
            handleButtonKeydown e s = Inr (preventDefault e, set_selectedIndex (int N - 1) s)) \<and>
         selectedIndex (set_selectedIndex v s) = v \<and>
         dispatched (set_selectedIndex v s) = dispatched s @ [''selected-changed''] \<and>
         (0 < N \<and> selectedIndex s = 0 \<and> (k = ''ArrowRight'' \<or> k = ''ArrowDown'') \<longrightarrow>
            visited k N s = map int [1..<N] @ [0])"
proof -
  have "visited k N s = map int [1..<N] @ [0]"
    if "0 < N" "selectedIndex s = 0" "k = ''ArrowRight'' \<or> k = ''ArrowDown''"
    using visited_next[OF that(3) assms, of N] that(1,2) full_cycle[of N] by simp
  then show ?thesis
    using handleButtonKeydown_next[OF assms, of e] handleButtonKeydown_previous[OF assms, of e]
      handleButtonKeydown_home[of e s] handleButtonKeydown_end[OF assms, of e]
    by (simp add: set_selectedIndex_frame)
qed

theorem tab_keyboard_policy_witness:
  "visited ''ArrowRight'' 3 demo_tabs = [1, 2, 0] \<and>
   selectedIndex (keyup ''End'' demo_tabs) = 2 \<and>
   selectedIndex (keyup ''Home'' (keyup ''End'' demo_tabs)) = 0 \<and>
   selectedIndex (keyup ''ArrowLeft'' demo_tabs) = 2"
proof -
  have pc: "pairCount demo_tabs = Inr 3" and sel: "selectedIndex demo_tabs = 0"
    by code_simp+
  have u: "[1..<3] = [1, 2]" by (simp add: upt_rec)
  have pc2: "pairCount (keyup ''End'' demo_tabs) = Inr 3"
    using tab_keyboard_policy[OF pc, of "\<lparr>key = ''End'', defaultPrevented = False\<rparr>"] pc
    by (simp add: keyup_def pairCount_set_selectedIndex)
  show ?thesis
    using tab_keyboard_policy[OF pc, of "\<lparr>key = ''End'', defaultPrevented = False\<rparr>" _ "''ArrowRight''"]
      tab_keyboard_policy[OF pc, of "\<lparr>key = ''ArrowLeft'', defaultPrevented = False\<rparr>" 2]
      tab_keyboard_policy[OF pc2, of "\<lparr>key = ''Home'', defaultPrevented = False\<rparr>" 0]
      sel u
    by (simp add: keyup_def)
qed

subsection \<open>Rebuilding the registry\<close>

lemma push_frame:
  "store (push e s) = map_option (\<lambda>es. es @ [e]) (store s)"
  "warnings (push e s) = warnings s"
  "nodes (push e s) = nodes s"
  "children (push e s) = children s"
  "descendants (push e s) = descendants s"
  "selectedIndex (push e s) = selectedIndex s"
  "firstUpdate (push e s) = firstUpdate s"
  "closures (push e s) = closures s"
  "draws (push e s) = draws s"
  "random (push e s) = random s"
  by (simp_all add: push_def)

lemma setupEntry_throws:
  assumes "\<not> index < length panels"
  shows "setupEntry b index panels s =
           Inl (TypeError, s\<lparr>draws := Suc (draws s), closures := closures s + 2\<rparr>)"
  using assms by (simp add: setupEntry_def Let_def)

lemma setupEntry_completes:
  assumes "index < length panels"
  shows "\<exists>s1. setupEntry b index panels s = Inr s1 \<and>
           store s1 = map_option (\<lambda>es. es @
              [\<lparr>uid = random s (draws s), button = b, panel = Some (panels ! index),
                clickHandler = ClickHandler (closures s) index,
                keydownHandler = KeyHandler (closures s + 1)\<rparr>]) (store s) \<and>
           nodes s1 =
             deselectButton b (deselectPanel (panels ! index)
               (setupButton b (random s (draws s)) (ClickHandler (closures s) index)
                  (KeyHandler (closures s + 1)) (closures s + 2)
                  (setupPanel (panels ! index) (random s (draws s)) (nodes s)))) \<and>
           warnings s1 = warnings s \<and> children s1 = children s \<and>
           descendants s1 = descendants s \<and>
           selectedIndex s1 = selectedIndex s \<and> firstUpdate s1 = firstUpdate s \<and>
           closures s1 = closures s + 3 \<and> random s1 = random s"
  using assms by (simp add: setupEntry_def Let_def push_frame)

lemma setupEntries_throws:
  "index \<le> length panels \<Longrightarrow> length panels < index + length bs \<Longrightarrow> store s = Some es \<Longrightarrow>
   \<exists>s' es'. setupEntries bs panels index s = Inl (TypeError, s') \<and> warnings s' = warnings s \<and>
        store s' = Some es' \<and> length es' = length es + (length panels - index)"
proof (induction bs arbitrary: index s es)
  case Nil
  then show ?case by simp
next
  case (Cons b bs)
  show ?case
  proof (cases "index < length panels")
    case False
    then have "index = length panels" using Cons.prems by simp
    then show ?thesis using Cons.prems(3) by (simp add: setupEntry_throws)
  next
    case True
    from setupEntry_completes[OF True, of b s] Cons.prems(3)
    obtain s1 e where s1: "setupEntry b index panels s = Inr s1" "store s1 = Some (es @ [e])"
      "warnings s1 = warnings s"
      by auto
    have "Suc index \<le> length panels" "length panels < Suc index + length bs"
      using True Cons.prems by simp_all
    from Cons.IH[OF this s1(2)]
    obtain s' es' where "setupEntries bs panels (Suc index) s1 = Inl (TypeError, s')"
      "warnings s' = warnings s1" "store s' = Some es'"
      "length es' = length (es @ [e]) + (length panels - Suc index)"
      by blast
    then show ?thesis using s1 True by simp
  qed
qed

lemma setupEntries_completes:
  "index + length bs \<le> length panels \<Longrightarrow> store s = Some es \<Longrightarrow>
   \<exists>s' es'. setupEntries bs panels index s = Inr s' \<and> warnings s' = warnings s \<and>
        store s' = Some es' \<and> length es' = length es + length bs"
proof (induction bs arbitrary: index s es)
  case Nil
  then show ?case by simp
next
  case (Cons b bs)
  then have lt: "index < length panels" by simp
  from setupEntry_completes[OF lt, of b s] Cons.prems(2)
  obtain s1 e where s1: "setupEntry b index panels s = Inr s1" "store s1 = Some (es @ [e])"
    "warnings s1 = warnings s"
    by auto
  have "Suc index + length bs \<le> length panels" using Cons.prems by simp
  from Cons.IH[OF this s1(2)]
  obtain s' es' where "setupEntries bs panels (Suc index) s1 = Inr s'"
    "warnings s' = warnings s1" "store s' = Some es'"
    "length es' = length (es @ [e]) + length bs"
    by blast
  then show ?case using s1 by simp
qed

text \<open>
  Claim C5. With more triggers than panels \<^verbatim>\<open>__setupStore\<close> records the warning and
  then throws a \<^verbatim>\<open>TypeError\<close> at the first trigger without a panel, leaving as many
  entries as there are panels; only with at most as many triggers as panels does it
  complete, building one entry per trigger and warning when the counts differ.
\<close>

theorem rebuild_with_count_mismatch:
  "(length (slotted ''panel'' s) < length (slotted ''tab'' s) \<longrightarrow>
      (\<exists>s'. setupStore s = Inl (TypeError, s') \<and>
            warnings s' = warnings s @ [(length (slotted ''tab'' s), length (slotted ''panel'' s))] \<and>
            map_option length (store s') = Some (length (slotted ''panel'' s)))) \<and>
   (length (slotted ''tab'' s) \<le> length (slotted ''panel'' s) \<longrightarrow>
      (\<exists>s'. setupStore s = Inr s' \<and>
            warnings s' =
              (if length (slotted ''tab'' s) = length (slotted ''panel'' s) then warnings s
               else warnings s @ [(length (slotted ''tab'' s), length (slotted ''panel'' s))]) \<and>
            map_option length (store s') = Some (length (slotted ''tab'' s))))"
proof (intro conjI impI)
  let ?bs = "slotted ''tab'' s" and ?ps = "slotted ''panel'' s"
  let ?s0 = "s\<lparr>store := Some []\<rparr>"
  have sl: "slotted n ?s0 = slotted n s" for n by (simp add: slotted_def)
  {
    assume a: "length ?ps < length ?bs"
    let ?s1 = "?s0\<lparr>warnings := warnings ?s0 @ [(length ?bs, length ?ps)]\<rparr>"
    have e: "setupStore s = setupEntries ?bs ?ps 0 ?s1"
      using a by (simp add: setupStore_def Let_def sl)
    from setupEntries_throws[of 0 ?ps ?bs ?s1 "[]"] a
    show "\<exists>s'. setupStore s = Inl (TypeError, s') \<and>
               warnings s' = warnings s @ [(length ?bs, length ?ps)] \<and>
               map_option length (store s') = Some (length ?ps)"
      unfolding e by auto
  }
  {
    assume a: "length ?bs \<le> length ?ps"
    let ?s1 = "if length ?bs \<noteq> length ?ps
               then ?s0\<lparr>warnings := warnings ?s0 @ [(length ?bs, length ?ps)]\<rparr> else ?s0"
    have e: "setupStore s = setupEntries ?bs ?ps 0 ?s1"
      by (simp add: setupStore_def Let_def sl)
    from setupEntries_completes[of 0 ?bs ?ps ?s1 "[]"] a
    show "\<exists>s'. setupStore s = Inr s' \<and>
               warnings s' = (if length ?bs = length ?ps then warnings s
                              else warnings s @ [(length ?bs, length ?ps)]) \<and>
               map_option length (store s') = Some (length ?bs)"
      unfolding e by auto
  }
qed

text \<open>
  Two triggers and one panel: the rebuild throws after the first entry; the second
  trigger is never set up and nothing is selected.
\<close>

theorem rebuild_with_count_mismatch_witness:
  "isl (rebuild [0, 2, 1] demo_init) \<and>
   warnings (state_of (rebuild [0, 2, 1] demo_init)) = [(2, 1)] \<and>
   map_option (map button) (store (state_of (rebuild [0, 2, 1] demo_init))) = Some [0] \<and>
   attrs (nodes (state_of (rebuild [0, 2, 1] demo_init)) 0) ''selected'' = None \<and>
   attrs (nodes (state_of (rebuild [0, 2, 1] demo_init)) 2) ''role'' = None"
proof -
  let ?s = "cleanStore (demo_init\<lparr>descendants := [0, 2, 1], children := [0, 2, 1]\<rparr>)"
  have "length (slotted ''panel'' ?s) < length (slotted ''tab'' ?s)" by code_simp
  with rebuild_with_count_mismatch[of ?s]
  have "isl (setupStore ?s)" by auto
  then have "isl (rebuild [0, 2, 1] demo_init)"
    by (cases "setupStore ?s") (simp_all add: rebuild_def slotchange_def handleSlotChange_def)
  moreover have "warnings (state_of (rebuild [0, 2, 1] demo_init)) = [(2, 1)]"
    "map_option (map button) (store (state_of (rebuild [0, 2, 1] demo_init))) = Some [0]"
    "attrs (nodes (state_of (rebuild [0, 2, 1] demo_init)) 0) ''selected'' = None"
    "attrs (nodes (state_of (rebuild [0, 2, 1] demo_init)) 2) ''role'' = None"
    by code_simp+
  ultimately show ?thesis by simp
qed

text \<open>
  Claim C6. One rebuild leaves a single \<^verbatim>\<open>keydown\<close> listener on the trigger. A second
  rebuild over the same children leaves two: \<^verbatim>\<open>cleanButton\<close> passes a new closure to
  \<^verbatim>\<open>removeEventListener\<close>, which removes nothing. A second rebuild over no children
  leaves the old trigger with its \<^verbatim>\<open>tabindex\<close> and its \<^verbatim>\<open>keydown\<close> listener and the old
  panel with its \<^verbatim>\<open>id\<close>.
\<close>

theorem rebuild_twice_keeps_old_listener:
  "\<not> isl (rebuild [0, 1] demo_init) \<and>
   \<not> isl (rebuild [0, 1] (state_of (rebuild [0, 1] demo_init))) \<and>
   listenersFor (nodes (state_of (rebuild [0, 1] demo_init))) 0 ''keydown'' = [PreventAll 2] \<and>
   listenersFor (nodes (state_of (rebuild [0, 1] (state_of (rebuild [0, 1] demo_init))))) 0 ''keydown''
     = [PreventAll 2, PreventAll 6] \<and>
   attrs (nodes (state_of (rebuild [] (state_of (rebuild [0, 1] demo_init)))) 0) ''tabindex'' = Some ''0'' \<and>
   attrs (nodes (state_of (rebuild [] (state_of (rebuild [0, 1] demo_init)))) 1) ''id'' = Some ''panel-u'' \<and>
   listenersFor (nodes (state_of (rebuild [] (state_of (rebuild [0, 1] demo_init))))) 0 ''keydown''
     = [PreventAll 2]"
  by code_simp


subsection \<open>Suppressing the default action\<close>









subsection \<open>The selected trigger\<close>















lemma wired_coherent_outside:
  "wired s \<Longrightarrow> store s = Some es \<Longrightarrow> at_index es (selectedIndex s) = None \<Longrightarrow> coherent s"
  "wired s \<Longrightarrow> store s = None \<Longrightarrow> coherent s"
  by (simp_all add: coherent_def)
























text \<open>
  Why the triggers must be direct children: \<^verbatim>\<open>__setupStore\<close> registers a trigger nested
  inside a panel, but \<^verbatim>\<open>__updateSelected\<close> looks for the previously selected trigger
  among \<^verbatim>\<open>this.children\<close> only. After selecting the nested trigger and then the first
  one again, both carry the selected triple.
\<close>

lemma nested_trigger_stays_selected:
  "\<not> isl (slotchange [0, 1, 2, 3] [0, 1] demo_init) \<and>
   map_option (map button) (store demo_inner) = Some [0, 2] \<and>
   mark (nodes (set_selectedIndex 0 (set_selectedIndex 1 demo_inner))) 0 = marked \<and>
   mark (nodes (set_selectedIndex 0 (set_selectedIndex 1 demo_inner))) 2 = marked"
  by code_simp

end
